theory Spec2Isabelle
  imports Complex_Main
begin

section \<open>SyncRateLimiter (services/rateLimiter/syncRateLimiter.ts)\<close>

text \<open>
  The configuration holds millisecond durations and a request count; timestamps are the
  whole milliseconds that \<^verbatim>\<open>Date.now()\<close> returns. They are integers here.
\<close>

record syncRateLimiterConfig =
  minRequestInterval :: int
  rateLimitWindow :: int
  maxRequestsPerWindow :: int
  rateLimitResetBuffer :: int

text \<open>The two private fields of the class, with the initial values of their declarations.\<close>

record SyncRateLimiter =
  requestTimes :: "int list"
  lastRequestTime :: int

definition newSyncRateLimiter :: SyncRateLimiter where
  "newSyncRateLimiter = \<lparr>requestTimes = [], lastRequestTime = 0\<rparr>"

text \<open>
  \<^verbatim>\<open>this.requestTimes.filter(time => now - time < this.config.rateLimitWindow)\<close>
\<close>

definition pruneRequests :: "syncRateLimiterConfig \<Rightarrow> int \<Rightarrow> SyncRateLimiter \<Rightarrow> int list" where
  "pruneRequests cfg now st = filter (\<lambda>time. now - time < rateLimitWindow cfg) (requestTimes st)"

text \<open>
  \<^verbatim>\<open>this.requestTimes.length >= this.config.maxRequestsPerWindow\<close>, read after the pruning.
\<close>

definition overLimit :: "syncRateLimiterConfig \<Rightarrow> int \<Rightarrow> SyncRateLimiter \<Rightarrow> bool" where
  "overLimit cfg now st = (maxRequestsPerWindow cfg \<le> int (length (pruneRequests cfg now st)))"

text \<open>
  \<^verbatim>\<open>this.requestTimes[0]\<close>: reading index 0 of an empty array yields \<^verbatim>\<open>undefined\<close> and does
  not throw; that outcome is \<open>None\<close>.
\<close>

definition oldestRequest :: "int list \<Rightarrow> int option" where
  "oldestRequest ts = (case ts of [] \<Rightarrow> None | t # _ \<Rightarrow> Some t)"

text \<open>
  \<^verbatim>\<open>rateLimitWindow - (now - oldestRequest) + rateLimitResetBuffer\<close>. Arithmetic on
  \<^verbatim>\<open>undefined\<close> gives \<^verbatim>\<open>NaN\<close>, which is \<open>None\<close> here.
\<close>

definition waitTime :: "syncRateLimiterConfig \<Rightarrow> int \<Rightarrow> int list \<Rightarrow> int option" where
  "waitTime cfg now ts =
     (case oldestRequest ts of
        None \<Rightarrow> None
      | Some oldest \<Rightarrow> Some (rateLimitWindow cfg - (now - oldest) + rateLimitResetBuffer cfg))"

text \<open>
  What one call of \<open>waitForRateLimit\<close> does: the delays it hands to \<^verbatim>\<open>setTimeout\<close>, in
  order, and the limiter it leaves behind.
\<close>

record admission =
  timers :: "int option list"
  limiter :: SyncRateLimiter

text \<open>
  \<open>now\<close> is the value of the first \<^verbatim>\<open>Date.now()\<close> (line 25) and \<open>later\<close> the value of the
  second one (line 51), read after the waits. The gap to the last request is computed from
  \<open>now\<close>, also when the call has waited for the window in between, as in the source.
\<close>

definition waitForRateLimit ::
  "syncRateLimiterConfig \<Rightarrow> int \<Rightarrow> int \<Rightarrow> SyncRateLimiter \<Rightarrow> admission" where
  "waitForRateLimit cfg now later st =
     (let pruned = pruneRequests cfg now st;
          windowWait = (if overLimit cfg now st then [waitTime cfg now pruned] else []);
          kept = (if overLimit cfg now st then [] else pruned);
          timeSinceLastRequest = now - lastRequestTime st;
          intervalWait =
            (if timeSinceLastRequest < minRequestInterval cfg
             then [Some (minRequestInterval cfg - timeSinceLastRequest)] else [])
      in \<lparr>timers = windowWait @ intervalWait,
          limiter = \<lparr>requestTimes = kept @ [later], lastRequestTime = later\<rparr>\<rparr>)"

text \<open>
  The timer of the platform: Node runs the callback of \<^verbatim>\<open>setTimeout(f, d)\<close> after \<open>d\<close>
  milliseconds, and after 1 millisecond when \<open>d\<close> is not a number between 1 and
  \<open>2^31 - 1\<close>.
\<close>

definition timerDelay :: "int option \<Rightarrow> int" where
  "timerDelay d = (case d of None \<Rightarrow> 1 | Some ms \<Rightarrow> if 1 \<le> ms \<and> ms \<le> 2147483647 then ms else 1)"

definition suspension :: "int option list \<Rightarrow> int" where
  "suspension ds = sum_list (map timerDelay ds)"

text \<open>
  A sequence of calls on one limiter, each finished before the next begins; each call
  comes with its two clock readings.
  \<open>runLimiter\<close> is the limiter after the calls, \<open>admissionTimes\<close> the timestamps the calls
  recorded, in order.
\<close>

fun runLimiter ::
  "syncRateLimiterConfig \<Rightarrow> SyncRateLimiter \<Rightarrow> (int \<times> int) list \<Rightarrow> SyncRateLimiter" where
  "runLimiter cfg st [] = st"
| "runLimiter cfg st ((now, later) # calls) =
     runLimiter cfg (limiter (waitForRateLimit cfg now later st)) calls"

fun admissionTimes ::
  "syncRateLimiterConfig \<Rightarrow> SyncRateLimiter \<Rightarrow> (int \<times> int) list \<Rightarrow> int list" where
  "admissionTimes cfg st [] = []"
| "admissionTimes cfg st ((now, later) # calls) =
     lastRequestTime (limiter (waitForRateLimit cfg now later st))
       # admissionTimes cfg (limiter (waitForRateLimit cfg now later st)) calls"

text \<open>
  The clock readings of a sequence of calls are consistent when the clock never runs
  backwards between calls and every call's second reading comes after its timers.
\<close>

fun wellTimed ::
  "syncRateLimiterConfig \<Rightarrow> int \<Rightarrow> SyncRateLimiter \<Rightarrow> (int \<times> int) list \<Rightarrow> bool" where
  "wellTimed cfg t st [] = True"
| "wellTimed cfg t st ((now, later) # calls) =
     (t \<le> now \<and> now + suspension (timers (waitForRateLimit cfg now later st)) \<le> later
      \<and> wellTimed cfg later (limiter (waitForRateLimit cfg now later st)) calls)"

text \<open>The timestamps of \<open>ts\<close> inside the trailing window of length \<open>w\<close> that ends at \<open>t\<close>.\<close>

definition trailingWindow :: "int \<Rightarrow> int \<Rightarrow> int list \<Rightarrow> int list" where
  "trailingWindow w t ts = filter (\<lambda>a. a \<le> t \<and> t - a < w) ts"

section \<open>PromptUtils (services/llmProviders/promptRunnerInterface.ts)\<close>

text \<open>
  A thrown value (\<^verbatim>\<open>error: unknown\<close>) is either an instance of \<^verbatim>\<open>Error\<close>, with its name and
  message, or any other value. \<^verbatim>\<open>NoObjectGeneratedError.isInstance\<close> belongs to the imported
  package \<^verbatim>\<open>ai\<close>; what it answers for a value is carried by the value as \<open>noObjectMarker\<close>.
\<close>

datatype thrown =
  JsError (errName: string) (errMessage: string) (noObjectMarker: bool)
| NonError (noObjectMarker: bool)

text \<open>\<^verbatim>\<open>s.includes(sub)\<close>: \<open>sub\<close> occurs in \<open>s\<close> as a contiguous run of characters.\<close>

fun stringIncludes :: "string \<Rightarrow> string \<Rightarrow> bool" where
  "stringIncludes [] sub = (sub = [])"
| "stringIncludes (c # s) sub = (take (length sub) (c # s) = sub \<or> stringIncludes s sub)"

definition errorName :: "thrown \<Rightarrow> string" where
  "errorName error = (case error of JsError n _ _ \<Rightarrow> n | NonError _ \<Rightarrow> ''Unknown error'')"

definition errorMessage :: "thrown \<Rightarrow> string" where
  "errorMessage error = (case error of JsError _ m _ \<Rightarrow> m | NonError _ \<Rightarrow> ''Unknown error'')"

definition isZodError :: "thrown \<Rightarrow> bool" where
  "isZodError error = (case error of JsError n _ _ \<Rightarrow> n = ''ZodError'' | NonError _ \<Rightarrow> False)"

definition isNoObjectGeneratedError :: "thrown \<Rightarrow> bool" where
  "isNoObjectGeneratedError error = noObjectMarker error"

definition isTimeoutError :: "thrown \<Rightarrow> bool" where
  "isTimeoutError error = stringIncludes (errorName error) ''TimeoutError''"

definition isParsingError :: "thrown \<Rightarrow> bool" where
  "isParsingError error = (isZodError error \<or> isNoObjectGeneratedError error \<or> isTimeoutError error)"

text \<open>
  The operation is a closure with effects: invoked in a world \<open>'w\<close>, it either throws
  (\<open>Inl\<close>) or returns a value (\<open>Inr\<close>), and leaves a new world. A run of the retry loop
  reports what the caller gets (\<open>outcome\<close>), how often the operation was invoked, the
  delays slept between attempts, and the world after the last invocation.
\<close>

record ('w, 'a) retryRun =
  outcome :: "thrown + 'a"
  invocations :: nat
  delays :: "int list"
  world :: 'w

text \<open>
  The \<^verbatim>\<open>for\<close> loop from \<open>attempt\<close> on. Behind the loop stands
  \<^verbatim>\<open>throw new Error('Retry operation failed')\<close>, reached when the loop body never runs.
\<close>

function retryLoop ::
  "('w \<Rightarrow> (thrown + 'a) \<times> 'w) \<Rightarrow> bool \<Rightarrow> int \<Rightarrow> int \<Rightarrow> int \<Rightarrow> 'w \<Rightarrow> ('w, 'a) retryRun" where
  "retryLoop operation retryOnlyParsingErrors maxRetries delayMs attempt w =
     (if attempt \<le> maxRetries then
        (case operation w of
           (Inr v, w') \<Rightarrow> \<lparr>outcome = Inr v, invocations = 1, delays = [], world = w'\<rparr>
         | (Inl error, w') \<Rightarrow>
             (let shouldRetry = (\<not> retryOnlyParsingErrors \<or> isParsingError error) in
              if \<not> shouldRetry \<or> attempt = maxRetries
              then \<lparr>outcome = Inl error, invocations = 1, delays = [], world = w'\<rparr>
              else
                (let rest = retryLoop operation retryOnlyParsingErrors maxRetries delayMs (attempt + 1) w'
                 in rest\<lparr>invocations := Suc (invocations rest), delays := delayMs # delays rest\<rparr>)))
      else \<lparr>outcome = Inl (JsError ''Error'' ''Retry operation failed'' False),
            invocations = 0, delays = [], world = w\<rparr>)"
  by pat_completeness auto
termination
  by (relation "measure (\<lambda>(operation, r, maxRetries, delayMs, attempt, w). nat (maxRetries + 1 - attempt))") auto

definition retryParsingOperation ::
  "('w \<Rightarrow> (thrown + 'a) \<times> 'w) \<Rightarrow> bool \<Rightarrow> int \<Rightarrow> int \<Rightarrow> 'w \<Rightarrow> ('w, 'a) retryRun" where
  "retryParsingOperation operation retryOnlyParsingErrors maxRetries delayMs w =
     retryLoop operation retryOnlyParsingErrors maxRetries delayMs 1 w"

section \<open>AsyncRateLimiter (services/rateLimiter/asyncRateLimiter.ts)\<close>

text \<open>
  A JavaScript \<^verbatim>\<open>number\<close>: \<^verbatim>\<open>NaN\<close>, one of the two infinities, or a finite value. Finite
  values are exact; the rounding of arithmetic results and the sign of zero are not
  modelled (a zero divisor counts as positive zero).
\<close>

datatype number = NaN | NegInfinity | Num real | PosInfinity

text \<open>\<^verbatim>\<open>a < b\<close>: false as soon as one side is \<^verbatim>\<open>NaN\<close>.\<close>

fun numLess :: "number \<Rightarrow> number \<Rightarrow> bool" where
  "numLess NaN b = False"
| "numLess a NaN = False"
| "numLess (Num a) (Num b) = (a < b)"
| "numLess a PosInfinity = (a \<noteq> PosInfinity)"
| "numLess NegInfinity b = (b \<noteq> NegInfinity)"
| "numLess a b = False"

text \<open>\<^verbatim>\<open>a <= b\<close>: false as soon as one side is \<^verbatim>\<open>NaN\<close>, otherwise the negation of \<^verbatim>\<open>b < a\<close>.\<close>

definition numLessEq :: "number \<Rightarrow> number \<Rightarrow> bool" where
  "numLessEq a b = (a \<noteq> NaN \<and> b \<noteq> NaN \<and> \<not> numLess b a)"

text \<open>\<^verbatim>\<open>a / b\<close> and \<^verbatim>\<open>Math.ceil(a)\<close>.\<close>

fun numDivide :: "number \<Rightarrow> number \<Rightarrow> number" where
  "numDivide NaN b = NaN"
| "numDivide a NaN = NaN"
| "numDivide (Num a) (Num b) =
     (if b = 0 then (if a = 0 then NaN else if 0 < a then PosInfinity else NegInfinity)
      else Num (a / b))"
| "numDivide (Num a) b = Num 0"
| "numDivide PosInfinity (Num b) = (if 0 \<le> b then PosInfinity else NegInfinity)"
| "numDivide NegInfinity (Num b) = (if 0 \<le> b then NegInfinity else PosInfinity)"
| "numDivide a b = NaN"

definition mathCeil :: "number \<Rightarrow> number" where
  "mathCeil a = (case a of Num x \<Rightarrow> Num (of_int \<lceil>x\<rceil>) | _ \<Rightarrow> a)"

text \<open>
  The configuration; every field is a \<^verbatim>\<open>number\<close>, and the optional \<open>minTime\<close> is \<open>None\<close>
  when it is \<^verbatim>\<open>undefined\<close>.
\<close>

record AsyncRateLimiterConfig =
  maxConcurrent :: number
  intervalCap :: number
  interval :: number
  minTime :: "number option"

text \<open>The options object the constructor hands to \<^verbatim>\<open>new Bottleneck(...)\<close>.\<close>

record BottleneckOptions =
  limiterMaxConcurrent :: number
  reservoir :: number
  reservoirRefreshAmount :: number
  reservoirRefreshInterval :: number
  limiterMinTime :: number

text \<open>
  The constructor: the four checks in the order of the source, each throwing
  \<^verbatim>\<open>new Error(message)\<close> (\<open>Inl\<close>), then the limiter's options (\<open>Inr\<close>).
\<close>

definition newAsyncRateLimiter :: "AsyncRateLimiterConfig \<Rightarrow> thrown + BottleneckOptions" where
  "newAsyncRateLimiter config =
     (if numLessEq (maxConcurrent config) (Num 0)
      then Inl (JsError ''Error'' ''maxConcurrent must be greater than 0'' False)
      else if numLess (intervalCap config) (maxConcurrent config)
      then Inl (JsError ''Error'' ''intervalCap must be greater than or equal to maxConcurrent'' False)
      else if numLessEq (interval config) (Num 0)
      then Inl (JsError ''Error'' ''interval must be greater than 0'' False)
      else if (case minTime config of None \<Rightarrow> False | Some m \<Rightarrow> numLessEq m (Num 0))
      then Inl (JsError ''Error'' ''minTime, if specified, must be greater than 0'' False)
      else Inr \<lparr>limiterMaxConcurrent = maxConcurrent config,
                reservoir = intervalCap config,
                reservoirRefreshAmount = intervalCap config,
                reservoirRefreshInterval = interval config,
                limiterMinTime =
                  (case minTime config of
                     Some m \<Rightarrow> m
                   | None \<Rightarrow> mathCeil (numDivide (interval config) (intervalCap config)))\<rparr>)"

text \<open>
  A settled promise (\<^verbatim>\<open>PromiseSettledResult\<close>), and a scheduled job once it has settled:
  the instant at which it completed and its result.
\<close>

datatype 'r settled = Fulfilled 'r | Rejected thrown

record 'r job =
  settledAt :: nat
  settledResult :: "'r settled"

record 't ProcessingError =
  item :: 't
  error :: thrown

record ('t, 'r) ResultAccumulator =
  successful :: "'r list"
  failed :: "'t ProcessingError list"

text \<open>
  \<^verbatim>\<open>items.map(item => this.schedule(() => processor(item)))\<close>: one call of \<open>schedule\<close> per
  item, in the order of the items. What the limiter and the processor make of the job
  submitted at index \<open>i\<close> for \<open>item\<close> is \<open>settle i item\<close>.
\<close>

fun scheduleFrom :: "(nat \<Rightarrow> 't \<Rightarrow> 'r job) \<Rightarrow> nat \<Rightarrow> 't list \<Rightarrow> 'r job list" where
  "scheduleFrom settle i [] = []"
| "scheduleFrom settle i (x # xs) = settle i x # scheduleFrom settle (Suc i) xs"

definition scheduleAll :: "(nat \<Rightarrow> 't \<Rightarrow> 'r job) \<Rightarrow> 't list \<Rightarrow> 'r job list" where
  "scheduleAll settle items = scheduleFrom settle 0 items"

text \<open>
  \<^verbatim>\<open>Promise.allSettled\<close> resolves once every promise has settled, to the array of their
  results in the order of the promises it was given.
\<close>

definition allSettled :: "'r job list \<Rightarrow> 'r settled list" where
  "allSettled promises = map settledResult promises"

text \<open>The callback of \<^verbatim>\<open>results.reduce\<close>.\<close>

definition reducer ::
  "'t list \<Rightarrow> ('t, 'r) ResultAccumulator \<Rightarrow> 'r settled \<Rightarrow> nat \<Rightarrow> ('t, 'r) ResultAccumulator" where
  "reducer items acc result index =
     (case result of
        Fulfilled v \<Rightarrow> acc\<lparr>successful := successful acc @ [v]\<rparr>
      | Rejected reason \<Rightarrow>
          acc\<lparr>failed := failed acc @
            [\<lparr>item = items ! index,
              error = (case reason of
                         JsError _ _ _ \<Rightarrow> reason
                       | NonError _ \<Rightarrow> JsError ''Error'' ''Unknown error'' False)\<rparr>]\<rparr>)"

text \<open>\<^verbatim>\<open>Array.prototype.reduce\<close> with an initial value, from index \<open>index\<close> on.\<close>

fun reduceFrom :: "('b \<Rightarrow> 'a \<Rightarrow> nat \<Rightarrow> 'b) \<Rightarrow> 'b \<Rightarrow> nat \<Rightarrow> 'a list \<Rightarrow> 'b" where
  "reduceFrom f acc index [] = acc"
| "reduceFrom f acc index (x # xs) = reduceFrom f (f acc x index) (Suc index) xs"

definition processItems ::
  "(nat \<Rightarrow> 't \<Rightarrow> 'r job) \<Rightarrow> 't list \<Rightarrow> ('t, 'r) ResultAccumulator" where
  "processItems settle items =
     reduceFrom (reducer items) \<lparr>successful = [], failed = []\<rparr> 0
       (allSettled (scheduleAll settle items))"

text \<open>
  The specification's reading of the result order, for comparison with \<open>processItems\<close>:
  the fulfilled values and the failures taken in the order in which the jobs completed.
\<close>

definition completionOrder :: "(nat \<Rightarrow> 't \<Rightarrow> 'r job) \<Rightarrow> 't list \<Rightarrow> ('t \<times> 'r job) list" where
  "completionOrder settle items =
     sort_key (\<lambda>p. settledAt (snd p)) (zip items (scheduleAll settle items))"

definition successfulByCompletion :: "(nat \<Rightarrow> 't \<Rightarrow> 'r job) \<Rightarrow> 't list \<Rightarrow> 'r list" where
  "successfulByCompletion settle items =
     concat (map (\<lambda>p. case settledResult (snd p) of Fulfilled v \<Rightarrow> [v] | Rejected _ \<Rightarrow> [])
               (completionOrder settle items))"

text \<open>
  Closed forms for the two lists that the \<^verbatim>\<open>reduce\<close> builds: the values of the fulfilled
  results, and one entry for every rejected result, paired with the item at its position.
\<close>

definition fulfilledValues :: "'r settled list \<Rightarrow> 'r list" where
  "fulfilledValues results =
     concat (map (\<lambda>res. case res of Fulfilled v \<Rightarrow> [v] | Rejected _ \<Rightarrow> []) results)"

definition rejectedItems :: "('t \<times> 'r settled) list \<Rightarrow> 't ProcessingError list" where
  "rejectedItems ps =
     concat (map (\<lambda>(x, res). case res of
                    Fulfilled _ \<Rightarrow> []
                  | Rejected reason \<Rightarrow>
                      [\<lparr>item = x,
                        error = (case reason of
                                   JsError _ _ _ \<Rightarrow> reason
                                 | NonError _ \<Rightarrow> JsError ''Error'' ''Unknown error'' False)\<rparr>]) ps)"

section \<open>Example configurations\<close>


definition singleConfig :: syncRateLimiterConfig where
  "singleConfig = \<lparr>minRequestInterval = 500, rateLimitWindow = 1000,
                   maxRequestsPerWindow = 1, rateLimitResetBuffer = 0\<rparr>"

text \<open>A window beyond the range of the platform timer (\<open>2^31 - 1\<close> ms).\<close>

definition hugeWindowConfig :: syncRateLimiterConfig where
  "hugeWindowConfig = \<lparr>minRequestInterval = 0, rateLimitWindow = 3000000000,
                       maxRequestsPerWindow = 1, rateLimitResetBuffer = 0\<rparr>"

text \<open>The configuration of the documentation, with \<^verbatim>\<open>NaN\<close> as \<open>maxConcurrent\<close>.\<close>

definition nanConfig :: AsyncRateLimiterConfig where
  "nanConfig = \<lparr>maxConcurrent = NaN, intervalCap = Num 20, interval = Num 10000,
                minTime = Some (Num 200)\<rparr>"

text \<open>
  Three jobs for the items 1, 2, 3 with the processor \<open>\<lambda>x. 10 * x\<close> that throws for 2: the
  job of item 3 completes first, the job of item 1 last.
\<close>

definition lateFirstJob :: "nat \<Rightarrow> int \<Rightarrow> int job" where
  "lateFirstJob i x =
     (if x = 2 then \<lparr>settledAt = 20, settledResult = Rejected (JsError ''Error'' ''no content'' False)\<rparr>
      else if x = 1 then \<lparr>settledAt = 50, settledResult = Fulfilled (10 * x)\<rparr>
      else \<lparr>settledAt = 10, settledResult = Fulfilled (10 * x)\<rparr>)"

definition inOrderJob :: "nat \<Rightarrow> int \<Rightarrow> int job" where
  "inOrderJob i x =
     (if x = 2 then \<lparr>settledAt = 20, settledResult = Rejected (JsError ''Error'' ''no content'' False)\<rparr>
      else \<lparr>settledAt = 10 * nat x, settledResult = Fulfilled (10 * x)\<rparr>)"

text \<open>The same items with a processor that throws a string, not an \<^verbatim>\<open>Error\<close>, for item 2.\<close>

definition stringThrowJob :: "nat \<Rightarrow> int \<Rightarrow> int job" where
  "stringThrowJob i x =
     \<lparr>settledAt = i,
      settledResult = (if x = 2 then Rejected (NonError False) else Fulfilled (10 * x))\<rparr>"

section \<open>The request log of the SyncRateLimiter\<close>

lemma limiter_after_call:
  "limiter (waitForRateLimit cfg now later st) =
     \<lparr>requestTimes = (if overLimit cfg now st then [] else pruneRequests cfg now st) @ [later],
      lastRequestTime = later\<rparr>"
  by (simp add: waitForRateLimit_def Let_def)

lemma timers_of_call:
  "timers (waitForRateLimit cfg now later st) =
     (if overLimit cfg now st then [waitTime cfg now (pruneRequests cfg now st)] else []) @
     (if now - lastRequestTime st < minRequestInterval cfg
      then [Some (minRequestInterval cfg - (now - lastRequestTime st))] else [])"
  by (simp add: waitForRateLimit_def Let_def)

lemma call_log_length:
  "0 < maxRequestsPerWindow cfg \<Longrightarrow>
   int (length (requestTimes (limiter (waitForRateLimit cfg now later st))))
     \<le> maxRequestsPerWindow cfg"
  by (simp add: limiter_after_call overLimit_def)

lemma run_log_length:
  "0 < maxRequestsPerWindow cfg \<Longrightarrow>
   int (length (requestTimes st)) \<le> maxRequestsPerWindow cfg \<Longrightarrow>
   int (length (requestTimes (runLimiter cfg st calls))) \<le> maxRequestsPerWindow cfg"
  by (induction cfg st calls rule: runLimiter.induct) (simp_all add: call_log_length)

lemma run_log_admitted:
  "set (requestTimes (runLimiter cfg st calls))
     \<subseteq> set (requestTimes st) \<union> set (admissionTimes cfg st calls)"
proof (induction cfg st calls rule: runLimiter.induct)
  case (1 cfg st)
  then show ?case by simp
next
  case (2 cfg st now later calls)
  have "set (requestTimes (limiter (waitForRateLimit cfg now later st)))
          \<subseteq> set (requestTimes st) \<union> {later}"
    by (auto simp: limiter_after_call pruneRequests_def)
  moreover have "lastRequestTime (limiter (waitForRateLimit cfg now later st)) = later"
    by (simp add: limiter_after_call)
  ultimately show ?case using "2.IH" by auto
qed

lemma trailingWindow_length: "length (trailingWindow w t ts) \<le> length ts"
  by (simp add: trailingWindow_def)

section \<open>Waiting times of the SyncRateLimiter\<close>

lemma timerDelay_pos: "1 \<le> timerDelay d"
  by (simp add: timerDelay_def split: option.splits)

lemma timerDelay_le: "1 \<le> ms \<Longrightarrow> timerDelay (Some ms) \<le> ms"
  by (simp add: timerDelay_def)

lemma suspension_nonneg: "0 \<le> suspension ds"
proof (induction ds)
  case Nil
  then show ?case by (simp add: suspension_def)
next
  case (Cons d ds)
  have "1 \<le> timerDelay d" by (rule timerDelay_pos)
  with Cons show ?case by (simp add: suspension_def)
qed

lemma overLimit_nonempty:
  "0 < maxRequestsPerWindow cfg \<Longrightarrow> overLimit cfg now st \<Longrightarrow> pruneRequests cfg now st \<noteq> []"
  by (auto simp: overLimit_def)

lemma pruned_hd:
  assumes "pruneRequests cfg now st \<noteq> []"
  shows "hd (pruneRequests cfg now st) \<in> set (requestTimes st)
         \<and> now - hd (pruneRequests cfg now st) < rateLimitWindow cfg"
proof -
  from assms have "hd (pruneRequests cfg now st) \<in> set (pruneRequests cfg now st)"
    by (rule hd_in_set)
  then show ?thesis by (simp add: pruneRequests_def)
qed

lemma windowWait_bound:
  assumes k: "0 < maxRequestsPerWindow cfg" and buf: "0 \<le> rateLimitResetBuffer cfg"
    and over: "overLimit cfg now st"
    and past: "\<forall>a \<in> set (requestTimes st). a \<le> now"
  shows "timerDelay (waitTime cfg now (pruneRequests cfg now st))
           \<le> rateLimitWindow cfg + rateLimitResetBuffer cfg"
proof -
  let ?p = "pruneRequests cfg now st"
  from k over have ne: "?p \<noteq> []" by (rule overLimit_nonempty)
  from pruned_hd [OF ne] past have le: "hd ?p \<le> now" and lt: "now - hd ?p < rateLimitWindow cfg"
    by simp_all
  from ne have wt: "waitTime cfg now ?p =
      Some (rateLimitWindow cfg - (now - hd ?p) + rateLimitResetBuffer cfg)"
    by (cases ?p) (simp_all add: waitTime_def oldestRequest_def)
  have "1 \<le> rateLimitWindow cfg - (now - hd ?p) + rateLimitResetBuffer cfg"
    using lt buf by simp
  then have "timerDelay (waitTime cfg now ?p)
      \<le> rateLimitWindow cfg - (now - hd ?p) + rateLimitResetBuffer cfg"
    unfolding wt by (rule timerDelay_le)
  with le show ?thesis by simp
qed

lemma intervalWait_bound:
  assumes "lastRequestTime st \<le> now" and "now - lastRequestTime st < minRequestInterval cfg"
  shows "timerDelay (Some (minRequestInterval cfg - (now - lastRequestTime st)))
           \<le> minRequestInterval cfg"
proof -
  have "1 \<le> minRequestInterval cfg - (now - lastRequestTime st)" using assms by simp
  then have "timerDelay (Some (minRequestInterval cfg - (now - lastRequestTime st)))
      \<le> minRequestInterval cfg - (now - lastRequestTime st)"
    by (rule timerDelay_le)
  with assms show ?thesis by simp
qed

lemma call_suspension_bound:
  assumes k: "0 < maxRequestsPerWindow cfg" and buf: "0 \<le> rateLimitResetBuffer cfg"
    and win: "0 \<le> rateLimitWindow cfg" and gap: "0 \<le> minRequestInterval cfg"
    and past: "\<forall>a \<in> set (requestTimes st). a \<le> now"
    and last: "lastRequestTime st \<le> now"
  shows "suspension (timers (waitForRateLimit cfg now later st))
           \<le> rateLimitWindow cfg + rateLimitResetBuffer cfg + minRequestInterval cfg"
proof -
  have a: "suspension (if overLimit cfg now st then [waitTime cfg now (pruneRequests cfg now st)] else [])
             \<le> rateLimitWindow cfg + rateLimitResetBuffer cfg"
  proof (cases "overLimit cfg now st")
    case True
    from windowWait_bound [OF k buf True past] True show ?thesis by (simp add: suspension_def)
  next
    case False
    with win buf show ?thesis by (simp add: suspension_def)
  qed
  have b: "suspension (if now - lastRequestTime st < minRequestInterval cfg
      then [Some (minRequestInterval cfg - (now - lastRequestTime st))] else [])
             \<le> minRequestInterval cfg"
  proof (cases "now - lastRequestTime st < minRequestInterval cfg")
    case True
    from intervalWait_bound [OF last True] True show ?thesis by (simp add: suspension_def)
  next
    case False
    with gap show ?thesis by (simp add: suspension_def)
  qed
  have "suspension (timers (waitForRateLimit cfg now later st)) =
      suspension (if overLimit cfg now st then [waitTime cfg now (pruneRequests cfg now st)] else [])
      + suspension (if now - lastRequestTime st < minRequestInterval cfg
      then [Some (minRequestInterval cfg - (now - lastRequestTime st))] else [])"
    unfolding timers_of_call by (simp add: suspension_def)
  with a b show ?thesis by linarith
qed

lemma call_keeps_past:
  assumes past: "\<forall>a \<in> set (requestTimes st). a \<le> t" and last: "lastRequestTime st \<le> t"
    and "t \<le> now" and "now + suspension (timers (waitForRateLimit cfg now later st)) \<le> later"
  shows "(\<forall>a \<in> set (requestTimes (limiter (waitForRateLimit cfg now later st))). a \<le> later)
         \<and> lastRequestTime (limiter (waitForRateLimit cfg now later st)) \<le> later"
proof -
  have "0 \<le> suspension (timers (waitForRateLimit cfg now later st))"
    by (rule suspension_nonneg)
  with assms have "t \<le> later" by linarith
  with past show ?thesis
    by (auto simp: limiter_after_call pruneRequests_def)
qed

lemma wellTimed_run:
  assumes "wellTimed cfg t st (calls @ [(now, later)])"
    and "\<forall>a \<in> set (requestTimes st). a \<le> t" and "lastRequestTime st \<le> t"
  shows "(\<forall>a \<in> set (requestTimes (runLimiter cfg st calls)). a \<le> now)
         \<and> lastRequestTime (runLimiter cfg st calls) \<le> now"
  using assms
proof (induction calls arbitrary: t st)
  case Nil
  then show ?case by auto
next
  case (Cons c calls)
  obtain n l where c: "c = (n, l)" by (cases c)
  let ?st = "limiter (waitForRateLimit cfg n l st)"
  from Cons.prems(1) c have tn: "t \<le> n"
    and nl: "n + suspension (timers (waitForRateLimit cfg n l st)) \<le> l"
    and rest: "wellTimed cfg l ?st (calls @ [(now, later)])"
    by simp_all
  from call_keeps_past [OF Cons.prems(2) Cons.prems(3) tn nl]
  have "\<forall>a \<in> set (requestTimes ?st). a \<le> l" and "lastRequestTime ?st \<le> l"
    by simp_all
  from Cons.IH [OF rest this] show ?case by (simp add: c)
qed

text \<open>
  C3, as stated: every call of \<open>waitForRateLimit\<close> returns without raising, and the time
  it spends suspended is at most \<open>rateLimitWindow + rateLimitResetBuffer\<close>. The bound
  fails: with a window of 1000 ms, one request per window, no buffer and a minimum interval
  of 500 ms, a call at 10100 after an admission at 10000 first waits 900 ms for the window
  and then another 400 ms for the minimum interval, which it measures from the clock value
  read at the start of the call: 1300 ms in all.
\<close>

theorem suspension_bound_counterexample:
  "wellTimed singleConfig 0 newSyncRateLimiter [(10000, 10000), (10100, 11400)]
   \<and> timers (waitForRateLimit singleConfig 10100 11400
         (runLimiter singleConfig newSyncRateLimiter [(10000, 10000)]))
     = [Some 900, Some 400]
   \<and> \<not> suspension (timers (waitForRateLimit singleConfig 10100 11400
           (runLimiter singleConfig newSyncRateLimiter [(10000, 10000)])))
       \<le> rateLimitWindow singleConfig + rateLimitResetBuffer singleConfig"
  by (simp add: waitForRateLimit_def overLimit_def pruneRequests_def Let_def
      newSyncRateLimiter_def suspension_def timerDelay_def waitTime_def oldestRequest_def
      singleConfig_def)

text \<open>
  C3, amended: a call of \<open>waitForRateLimit\<close> has no raising branch (its model is a total
  function into \<open>admission\<close>), and for a configuration with non-negative durations and
  \<open>maxRequestsPerWindow > 0\<close>, in every sequence of calls on a fresh limiter whose clock
  readings are consistent, the time a call spends suspended is at most
  \<open>rateLimitWindow + rateLimitResetBuffer + minRequestInterval\<close>.
\<close>

theorem suspension_bound:
  assumes "0 < maxRequestsPerWindow cfg" and "0 \<le> rateLimitResetBuffer cfg"
    and "0 \<le> rateLimitWindow cfg" and "0 \<le> minRequestInterval cfg"
    and "wellTimed cfg 0 newSyncRateLimiter (calls @ [(now, later)])"
  shows "suspension (timers (waitForRateLimit cfg now later (runLimiter cfg newSyncRateLimiter calls)))
           \<le> rateLimitWindow cfg + rateLimitResetBuffer cfg + minRequestInterval cfg"
proof -
  have "(\<forall>a \<in> set (requestTimes (runLimiter cfg newSyncRateLimiter calls)). a \<le> now)
         \<and> lastRequestTime (runLimiter cfg newSyncRateLimiter calls) \<le> now"
    by (rule wellTimed_run [OF assms(5)]) (simp_all add: newSyncRateLimiter_def)
  then show ?thesis
    using call_suspension_bound [OF assms(1-4)] by blast
qed

theorem suspension_bound_witness:
  "0 < maxRequestsPerWindow singleConfig \<and> 0 \<le> rateLimitResetBuffer singleConfig
   \<and> 0 \<le> rateLimitWindow singleConfig \<and> 0 \<le> minRequestInterval singleConfig
   \<and> wellTimed singleConfig 0 newSyncRateLimiter ([(10000, 10000)] @ [(10100, 11400)])
   \<and> suspension (timers (waitForRateLimit singleConfig 10100 11400
         (runLimiter singleConfig newSyncRateLimiter [(10000, 10000)]))) = 1300
   \<and> (1300::int) \<le> rateLimitWindow singleConfig + rateLimitResetBuffer singleConfig
         + minRequestInterval singleConfig"
proof -
  have a: "0 < maxRequestsPerWindow singleConfig" and b: "0 \<le> rateLimitResetBuffer singleConfig"
    and c: "0 \<le> rateLimitWindow singleConfig" and d: "0 \<le> minRequestInterval singleConfig"
    by (simp_all add: singleConfig_def)
  have e: "wellTimed singleConfig 0 newSyncRateLimiter ([(10000, 10000)] @ [(10100, 11400)])"
    by (simp add: waitForRateLimit_def overLimit_def pruneRequests_def Let_def
        newSyncRateLimiter_def suspension_def timerDelay_def waitTime_def oldestRequest_def
        singleConfig_def)
  have f: "suspension (timers (waitForRateLimit singleConfig 10100 11400
         (runLimiter singleConfig newSyncRateLimiter [(10000, 10000)]))) = 1300"
    by (simp add: waitForRateLimit_def overLimit_def pruneRequests_def Let_def
        newSyncRateLimiter_def suspension_def timerDelay_def waitTime_def oldestRequest_def
        singleConfig_def)
  from suspension_bound [OF a b c d e] a b c d e f show ?thesis by simp
qed

text \<open>
  C10: with \<open>maxRequestsPerWindow > 0\<close>, whenever a call takes the over-limit branch the
  pruned log is not empty, so \<^verbatim>\<open>requestTimes[0]\<close> reads its first timestamp and the wait
  handed to the timer is the number computed from it, never \<^verbatim>\<open>NaN\<close>.
\<close>

theorem oldest_request_defined:
  assumes "0 < maxRequestsPerWindow cfg" and "overLimit cfg now st"
  shows "pruneRequests cfg now st \<noteq> []
     \<and> oldestRequest (pruneRequests cfg now st) = Some (hd (pruneRequests cfg now st))
     \<and> hd (timers (waitForRateLimit cfg now later st)) =
         Some (rateLimitWindow cfg - (now - hd (pruneRequests cfg now st))
               + rateLimitResetBuffer cfg)"
proof -
  from assms have "pruneRequests cfg now st \<noteq> []" by (rule overLimit_nonempty)
  then obtain t ts where "pruneRequests cfg now st = t # ts"
    by (cases "pruneRequests cfg now st") auto
  with assms(2) show ?thesis
    by (simp add: timers_of_call waitTime_def oldestRequest_def)
qed

theorem oldest_request_defined_witness:
  "0 < maxRequestsPerWindow singleConfig
   \<and> overLimit singleConfig 10100 \<lparr>requestTimes = [10000], lastRequestTime = 10000\<rparr>
   \<and> hd (timers (waitForRateLimit singleConfig 10100 11400
           \<lparr>requestTimes = [10000], lastRequestTime = 10000\<rparr>)) = Some 900"
proof -
  have a: "0 < maxRequestsPerWindow singleConfig" by (simp add: singleConfig_def)
  have b: "overLimit singleConfig 10100 \<lparr>requestTimes = [10000], lastRequestTime = 10000\<rparr>"
    by (simp add: overLimit_def pruneRequests_def singleConfig_def)
  from oldest_request_defined [OF a b, of 11400] a b show ?thesis
    by (simp add: pruneRequests_def singleConfig_def)
qed

text \<open>
  The precondition is needed: with \<open>maxRequestsPerWindow = 0\<close> the first call of a fresh
  limiter takes the over-limit branch on an empty log and hands \<^verbatim>\<open>NaN\<close> to the timer.
\<close>

lemma oldest_request_undefined_without_precondition:
  "timers (waitForRateLimit \<lparr>minRequestInterval = 0, rateLimitWindow = 1000,
      maxRequestsPerWindow = 0, rateLimitResetBuffer = 0\<rparr> 5000 5001 newSyncRateLimiter) = [None]"
  by (simp add: waitForRateLimit_def overLimit_def pruneRequests_def Let_def
      newSyncRateLimiter_def waitTime_def oldestRequest_def)

section \<open>The sliding window of the SyncRateLimiter\<close>












text \<open>
  The timer range is needed: a wait beyond \<open>2^31 - 1\<close> ms makes the timer fire after
  1 ms, and then even with one request per window three admissions fall into one window.
\<close>

lemma window_bound_needs_timer_range:
  "wellTimed hugeWindowConfig 0 newSyncRateLimiter [(10, 10), (11, 12), (12, 13)]
   \<and> trailingWindow (rateLimitWindow hugeWindowConfig) 13
       (admissionTimes hugeWindowConfig newSyncRateLimiter [(10, 10), (11, 12), (12, 13)])
     = [10, 12, 13]"
  by (simp add: waitForRateLimit_def overLimit_def pruneRequests_def Let_def
      newSyncRateLimiter_def trailingWindow_def suspension_def timerDelay_def waitTime_def
      oldestRequest_def hugeWindowConfig_def)

section \<open>The retry loop\<close>

lemma retryLoop_stop:
  "attempt \<le> maxRetries \<Longrightarrow> operation w = (Inl e, w') \<Longrightarrow>
   (r \<and> \<not> isParsingError e) \<or> attempt = maxRetries \<Longrightarrow>
   retryLoop operation r maxRetries delayMs attempt w =
     \<lparr>outcome = Inl e, invocations = 1, delays = [], world = w'\<rparr>"
  by (subst retryLoop.simps) auto

lemma retryLoop_again:
  "attempt < maxRetries \<Longrightarrow> operation w = (Inl e, w') \<Longrightarrow>
   \<not> r \<or> isParsingError e \<Longrightarrow>
   retryLoop operation r maxRetries delayMs attempt w =
     (let rest = retryLoop operation r maxRetries delayMs (attempt + 1) w'
      in rest\<lparr>invocations := Suc (invocations rest), delays := delayMs # delays rest\<rparr>)"
  by (subst retryLoop.simps) auto

text \<open>
  C5: when every invocation of the operation throws a retryable error, the call with
  restriction enabled and \<open>maxRetries = 3\<close> invokes the operation exactly three times,
  sleeps \<open>delayMs\<close> twice in between, and throws what the third invocation threw, in the
  world the third invocation left.
\<close>

theorem retry_exhausts_three_attempts:
  assumes fails: "\<forall>w. \<exists>e w'. operation w = (Inl e, w') \<and> isParsingError e"
  shows "retryParsingOperation operation True 3 delayMs w0 =
           \<lparr>outcome = fst (operation (snd (operation (snd (operation w0))))),
            invocations = 3,
            delays = [delayMs, delayMs],
            world = snd (operation (snd (operation (snd (operation w0)))))\<rparr>
         \<and> isl (fst (operation (snd (operation (snd (operation w0))))))"
proof -
  from fails obtain e1 w1 where 1: "operation w0 = (Inl e1, w1)" "isParsingError e1" by blast
  from fails obtain e2 w2 where 2: "operation w1 = (Inl e2, w2)" "isParsingError e2" by blast
  from fails obtain e3 w3 where 3: "operation w2 = (Inl e3, w3)" "isParsingError e3" by blast
  have r3: "retryLoop operation True 3 delayMs 3 w2 =
              \<lparr>outcome = Inl e3, invocations = 1, delays = [], world = w3\<rparr>"
    using 3 by (simp add: retryLoop_stop)
  have r2: "retryLoop operation True 3 delayMs 2 w1 =
              \<lparr>outcome = Inl e3, invocations = 2, delays = [delayMs], world = w3\<rparr>"
    using 2 r3 retryLoop_again [of 2 3 operation w1 e2 w2 True delayMs] by simp
  have r1: "retryLoop operation True 3 delayMs 1 w0 =
              \<lparr>outcome = Inl e3, invocations = 3, delays = [delayMs, delayMs], world = w3\<rparr>"
    using 1 r2 retryLoop_again [of 1 3 operation w0 e1 w1 True delayMs] by simp
  show ?thesis
    using r1 1 2 3 by (simp add: retryParsingOperation_def)
qed

theorem retry_exhausts_three_attempts_witness:
  "(\<forall>w::nat. \<exists>e w'.
      (\<lambda>n. (Inl (JsError ''ZodError'' ''invalid'' False) :: thrown + unit, Suc n)) w = (Inl e, w')
      \<and> isParsingError e)
   \<and> retryParsingOperation
        (\<lambda>n. (Inl (JsError ''ZodError'' ''invalid'' False) :: thrown + unit, Suc n)) True 3 10 (0::nat) =
       \<lparr>outcome = Inl (JsError ''ZodError'' ''invalid'' False), invocations = 3,
        delays = [10, 10], world = 3\<rparr>"
proof -
  have h: "\<forall>w::nat. \<exists>e w'.
      (\<lambda>n. (Inl (JsError ''ZodError'' ''invalid'' False) :: thrown + unit, Suc n)) w = (Inl e, w')
      \<and> isParsingError e"
    by (simp add: isParsingError_def isZodError_def)
  from retry_exhausts_three_attempts [OF h, of 10 0] h show ?thesis
    by (simp add: numeral_3_eq_3)
qed

text \<open>
  C6: with restriction enabled and at least one attempt allowed, when the first invocation
  throws an error that is no ZodError, no NoObjectGeneratedError and whose name does not
  contain \<^verbatim>\<open>TimeoutError\<close>, the operation is invoked exactly once, nothing is slept, and
  that error is thrown to the caller.
\<close>

theorem nonretryable_error_stops_retry:
  assumes "1 \<le> maxRetries" and "operation w = (Inl e, w')"
    and "\<not> isZodError e" and "\<not> isNoObjectGeneratedError e" and "\<not> isTimeoutError e"
  shows "retryParsingOperation operation True maxRetries delayMs w =
           \<lparr>outcome = Inl e, invocations = 1, delays = [], world = w'\<rparr>"
  using assms by (simp add: retryParsingOperation_def retryLoop_stop isParsingError_def)

theorem nonretryable_error_stops_retry_witness:
  "(1::int) \<le> 3
   \<and> \<not> isZodError (JsError ''TypeError'' ''boom'' False)
   \<and> \<not> isNoObjectGeneratedError (JsError ''TypeError'' ''boom'' False)
   \<and> \<not> isTimeoutError (JsError ''TypeError'' ''boom'' False)
   \<and> retryParsingOperation
        (\<lambda>n::nat. (Inl (JsError ''TypeError'' ''boom'' False) :: thrown + unit, Suc n)) True 3 1000 0 =
       \<lparr>outcome = Inl (JsError ''TypeError'' ''boom'' False), invocations = 1, delays = [],
        world = 1\<rparr>"
proof -
  have a: "(1::int) \<le> 3" by simp
  have b: "(\<lambda>n::nat. (Inl (JsError ''TypeError'' ''boom'' False) :: thrown + unit, Suc n)) 0
      = (Inl (JsError ''TypeError'' ''boom'' False), 1)" by simp
  have c: "\<not> isZodError (JsError ''TypeError'' ''boom'' False)"
    by (simp add: isZodError_def)
  have d: "\<not> isNoObjectGeneratedError (JsError ''TypeError'' ''boom'' False)"
    by (simp add: isNoObjectGeneratedError_def)
  have e: "\<not> isTimeoutError (JsError ''TypeError'' ''boom'' False)"
    by (simp add: isTimeoutError_def errorName_def)
  from nonretryable_error_stops_retry
    [where operation = "\<lambda>n::nat. (Inl (JsError ''TypeError'' ''boom'' False) :: thrown + unit, Suc n)"
      and w = 0 and maxRetries = 3 and delayMs = 1000, OF a b c d e] a c d e
  show ?thesis by simp
qed

text \<open>
  Without an attempt allowed the operation is not invoked at all, and the error behind the
  loop is thrown.
\<close>

lemma retry_without_attempts:
  "maxRetries < 1 \<Longrightarrow>
   retryParsingOperation operation r maxRetries delayMs w =
     \<lparr>outcome = Inl (JsError ''Error'' ''Retry operation failed'' False),
      invocations = 0, delays = [], world = w\<rparr>"
  unfolding retryParsingOperation_def by (subst retryLoop.simps) simp

section \<open>The constructor of the AsyncRateLimiter\<close>

text \<open>
  For a configuration without \<^verbatim>\<open>NaN\<close> the constructor throws exactly when the
  configuration violates one of \<open>maxConcurrent > 0\<close>, \<open>intervalCap \<ge> maxConcurrent\<close>,
  \<open>interval > 0\<close> and, when \<open>minTime\<close> is given, \<open>minTime > 0\<close>.
\<close>

lemma numLessEq_numeric:
  "a \<noteq> NaN \<Longrightarrow> b \<noteq> NaN \<Longrightarrow> numLessEq a b = (\<not> numLess b a)"
  by (simp add: numLessEq_def)

lemma constructor_validation_numeric:
  assumes "maxConcurrent config \<noteq> NaN" and "intervalCap config \<noteq> NaN"
    and "interval config \<noteq> NaN" and "minTime config \<noteq> Some NaN"
  shows "isl (newAsyncRateLimiter config) \<longleftrightarrow>
     \<not> (numLess (Num 0) (maxConcurrent config)
        \<and> numLessEq (maxConcurrent config) (intervalCap config)
        \<and> numLess (Num 0) (interval config)
        \<and> (case minTime config of None \<Rightarrow> True | Some m \<Rightarrow> numLess (Num 0) m))"
  using assms
  by (auto simp: newAsyncRateLimiter_def numLessEq_def split: option.splits)

text \<open>
  For every configuration, \<^verbatim>\<open>NaN\<close> included: the constructor throws when
  \<open>intervalCap < maxConcurrent\<close>, and it throws only when one of the four conditions is
  violated.
\<close>

lemma constructor_rejects_small_intervalCap:
  "numLess (intervalCap config) (maxConcurrent config) \<Longrightarrow> isl (newAsyncRateLimiter config)"
  by (simp add: newAsyncRateLimiter_def)

lemma constructor_throws_only_on_violation:
  "isl (newAsyncRateLimiter config) \<Longrightarrow>
     \<not> (numLess (Num 0) (maxConcurrent config)
        \<and> numLessEq (maxConcurrent config) (intervalCap config)
        \<and> numLess (Num 0) (interval config)
        \<and> (case minTime config of None \<Rightarrow> True | Some m \<Rightarrow> numLess (Num 0) m))"
  by (auto simp: newAsyncRateLimiter_def numLessEq_def split: option.splits if_splits)

text \<open>
  C7: the constructor is to throw exactly when the configuration violates one of
  \<open>maxConcurrent > 0\<close>, \<open>intervalCap \<ge> maxConcurrent\<close>, \<open>interval > 0\<close> and, when
  \<open>minTime\<close> is given, \<open>minTime > 0\<close>. The code misses a case: its guards are written as
  \<^verbatim>\<open><= 0\<close> and \<^verbatim>\<open><\<close>, which are all false on \<^verbatim>\<open>NaN\<close>. With \<open>maxConcurrent = NaN\<close> the
  configuration violates \<open>maxConcurrent > 0\<close>, the message of the first guard says
  \<open>maxConcurrent must be greater than 0\<close>, and the constructor does not throw: it builds a
  limiter whose \<open>maxConcurrent\<close> is \<^verbatim>\<open>NaN\<close>.
\<close>

theorem constructor_accepts_nan:
  "\<not> numLess (Num 0) (maxConcurrent nanConfig)
   \<and> newAsyncRateLimiter nanConfig =
       Inr \<lparr>limiterMaxConcurrent = NaN, reservoir = Num 20, reservoirRefreshAmount = Num 20,
            reservoirRefreshInterval = Num 10000, limiterMinTime = Num 200\<rparr>"
  by (simp add: newAsyncRateLimiter_def nanConfig_def numLessEq_def)

text \<open>
  A configuration that passes, the one of the documentation without \<open>minTime\<close>, and one
  that is refused for its \<open>intervalCap\<close>.
\<close>

lemma constructor_accepts_documented_config:
  "newAsyncRateLimiter
     \<lparr>maxConcurrent = Num 5, intervalCap = Num 40, interval = Num 10500, minTime = None\<rparr>
     = Inr \<lparr>limiterMaxConcurrent = Num 5, reservoir = Num 40, reservoirRefreshAmount = Num 40,
            reservoirRefreshInterval = Num 10500, limiterMinTime = Num 263\<rparr>"
  by (simp add: newAsyncRateLimiter_def numLessEq_def mathCeil_def)

lemma constructor_rejects_small_intervalCap_example:
  "newAsyncRateLimiter
     \<lparr>maxConcurrent = Num 5, intervalCap = Num 4, interval = Num 1000, minTime = None\<rparr>
     = Inl (JsError ''Error'' ''intervalCap must be greater than or equal to maxConcurrent'' False)"
  by (simp add: newAsyncRateLimiter_def numLessEq_def)

section \<open>Batch processing with processItems\<close>

lemma length_scheduleFrom: "length (scheduleFrom settle i xs) = length xs"
  by (induction xs arbitrary: i) simp_all

lemma length_allSettled_scheduleAll: "length (allSettled (scheduleAll settle items)) = length items"
  by (simp add: allSettled_def scheduleAll_def length_scheduleFrom)

lemma reduceFrom_reducer:
  "k + length results \<le> length items \<Longrightarrow>
   reduceFrom (reducer items) acc k results =
     \<lparr>successful = successful acc @ fulfilledValues results,
      failed = failed acc @ rejectedItems (zip (drop k items) results)\<rparr>"
proof (induction results arbitrary: acc k)
  case Nil
  then show ?case by (simp add: fulfilledValues_def rejectedItems_def)
next
  case (Cons r rs)
  from Cons.prems have k: "k < length items" and le: "Suc k + length rs \<le> length items"
    by simp_all
  have dr: "drop k items = items ! k # drop (Suc k) items"
    using k by (simp add: Cons_nth_drop_Suc)
  have "reduceFrom (reducer items) acc k (r # rs) =
          reduceFrom (reducer items) (reducer items acc r k) (Suc k) rs"
    by simp
  also have "\<dots> =
      \<lparr>successful = successful (reducer items acc r k) @ fulfilledValues rs,
       failed = failed (reducer items acc r k) @ rejectedItems (zip (drop (Suc k) items) rs)\<rparr>"
    by (rule Cons.IH [OF le])
  also have "\<dots> =
      \<lparr>successful = successful acc @ fulfilledValues (r # rs),
       failed = failed acc @ rejectedItems (zip (drop k items) (r # rs))\<rparr>"
    by (cases r) (simp_all add: dr reducer_def fulfilledValues_def rejectedItems_def)
  finally show ?case .
qed

lemma processItems_closed:
  "processItems settle items =
     \<lparr>successful = fulfilledValues (allSettled (scheduleAll settle items)),
      failed = rejectedItems (zip items (allSettled (scheduleAll settle items)))\<rparr>"
  by (simp add: processItems_def reduceFrom_reducer length_allSettled_scheduleAll)

lemma length_partition:
  "length xs = length results \<Longrightarrow>
   length (fulfilledValues results) + length (rejectedItems (zip xs results)) = length results"
proof (induction xs results rule: list_induct2)
  case Nil
  then show ?case by (simp add: fulfilledValues_def rejectedItems_def)
next
  case (Cons x xs r rs)
  then show ?case by (cases r) (simp_all add: fulfilledValues_def rejectedItems_def)
qed

lemma rejectedItems_sound:
  assumes "pe \<in> set (rejectedItems (zip xs results))"
  shows "\<exists>i reason. i < length xs \<and> i < length results \<and> results ! i = Rejected reason \<and>
           pe = \<lparr>item = xs ! i,
                 error = (case reason of JsError _ _ _ \<Rightarrow> reason
                          | NonError _ \<Rightarrow> JsError ''Error'' ''Unknown error'' False)\<rparr>"
proof -
  from assms obtain x res where mem: "(x, res) \<in> set (zip xs results)"
    and pe: "pe \<in> set (case res of Fulfilled _ \<Rightarrow> []
                | Rejected reason \<Rightarrow>
                    [\<lparr>item = x,
                      error = (case reason of JsError _ _ _ \<Rightarrow> reason
                               | NonError _ \<Rightarrow> JsError ''Error'' ''Unknown error'' False)\<rparr>])"
    by (auto simp: rejectedItems_def)
  from mem obtain i where i: "i < length xs" "i < length results" "xs ! i = x" "results ! i = res"
    by (auto simp: set_zip)
  from pe obtain reason where "res = Rejected reason"
    and "pe = \<lparr>item = x,
               error = (case reason of JsError _ _ _ \<Rightarrow> reason
                        | NonError _ \<Rightarrow> JsError ''Error'' ''Unknown error'' False)\<rparr>"
    by (cases res) simp_all
  with i show ?thesis by blast
qed

lemma rejectedItems_complete:
  assumes "i < length xs" "i < length results" "results ! i = Rejected reason"
  shows "\<lparr>item = xs ! i,
          error = (case reason of JsError _ _ _ \<Rightarrow> reason
                   | NonError _ \<Rightarrow> JsError ''Error'' ''Unknown error'' False)\<rparr>
         \<in> set (rejectedItems (zip xs results))"
proof -
  have "(xs ! i, Rejected reason) \<in> set (zip xs results)"
    using assms by (auto simp: set_zip)
  then show ?thesis
    by (force simp: rejectedItems_def)
qed


lemma scheduleFrom_nth:
  "i < length xs \<Longrightarrow> scheduleFrom settle k xs ! i = settle (k + i) (xs ! i)"
proof (induction xs arbitrary: k i)
  case Nil
  then show ?case by simp
next
  case (Cons x xs)
  then show ?case by (cases i) simp_all
qed

lemma allSettled_nth:
  "i < length items \<Longrightarrow>
   allSettled (scheduleAll settle items) ! i = settledResult (settle i (items ! i))"
  by (simp add: allSettled_def scheduleAll_def scheduleFrom_nth length_scheduleFrom)

lemma scheduleFrom_results_cong:
  "(\<And>i x. settledResult (settle' i x) = settledResult (settle i x)) \<Longrightarrow>
   map settledResult (scheduleFrom settle' k xs) = map settledResult (scheduleFrom settle k xs)"
  by (induction xs arbitrary: k) simp_all

lemma allSettled_scheduleAll_map:
  "allSettled (scheduleAll settle items) =
     map (\<lambda>i. settledResult (settle i (items ! i))) [0..<length items]"
  by (rule nth_equalityI) (simp_all add: length_allSettled_scheduleAll allSettled_nth)

lemma fulfilledValues_set: "set (fulfilledValues rs) = {v. Fulfilled v \<in> set rs}"
proof (induction rs)
  case Nil
  then show ?case by (simp add: fulfilledValues_def)
next
  case (Cons r rs)
  then show ?case by (cases r) (auto simp: fulfilledValues_def)
qed

text \<open>
  C2: the result is determined by the settled results taken in the order of the items:
  \<open>successful\<close> holds the value of every fulfilled job and nothing else, \<open>failed\<close> holds
  one entry for every rejected job and nothing else, so every item contributes to exactly
  one of the two lists and their lengths add up to the number of items. Every entry of
  \<open>failed\<close> pairs the input item with the reason its job was rejected with, and a reason
  that is not an \<^verbatim>\<open>Error\<close> is replaced by \<^verbatim>\<open>new Error('Unknown error')\<close>.
\<close>

theorem processItems_partition:
  "processItems settle items =
     \<lparr>successful =
        fulfilledValues (map (\<lambda>i. settledResult (settle i (items ! i))) [0..<length items]),
      failed =
        rejectedItems
          (zip items (map (\<lambda>i. settledResult (settle i (items ! i))) [0..<length items]))\<rparr>
   \<and> length (successful (processItems settle items)) + length (failed (processItems settle items))
     = length items
   \<and> (\<forall>v \<in> set (successful (processItems settle items)).
        \<exists>i. i < length items \<and> settledResult (settle i (items ! i)) = Fulfilled v)
   \<and> (\<forall>i < length items. \<forall>v.
        settledResult (settle i (items ! i)) = Fulfilled v \<longrightarrow>
          v \<in> set (successful (processItems settle items)))
   \<and> (\<forall>pe \<in> set (failed (processItems settle items)).
        \<exists>i reason. i < length items \<and> settledResult (settle i (items ! i)) = Rejected reason
          \<and> pe = \<lparr>item = items ! i,
                  error = (case reason of JsError _ _ _ \<Rightarrow> reason
                           | NonError _ \<Rightarrow> JsError ''Error'' ''Unknown error'' False)\<rparr>)
   \<and> (\<forall>i < length items. \<forall>reason.
        settledResult (settle i (items ! i)) = Rejected reason \<longrightarrow>
          \<lparr>item = items ! i,
           error = (case reason of JsError _ _ _ \<Rightarrow> reason
                    | NonError _ \<Rightarrow> JsError ''Error'' ''Unknown error'' False)\<rparr>
            \<in> set (failed (processItems settle items)))"
proof (intro conjI ballI allI impI)
  show "processItems settle items =
     \<lparr>successful =
        fulfilledValues (map (\<lambda>i. settledResult (settle i (items ! i))) [0..<length items]),
      failed =
        rejectedItems
          (zip items (map (\<lambda>i. settledResult (settle i (items ! i))) [0..<length items]))\<rparr>"
    using processItems_closed [of settle items] by (simp add: allSettled_scheduleAll_map)
next
  let ?res = "allSettled (scheduleAll settle items)"
  have len: "length items = length ?res" by (simp add: length_allSettled_scheduleAll)
  show "length (successful (processItems settle items)) + length (failed (processItems settle items))
     = length items"
    using length_partition [OF len] len by (simp add: processItems_closed)
next
  fix v assume "v \<in> set (successful (processItems settle items))"
  then have "Fulfilled v \<in> set (allSettled (scheduleAll settle items))"
    by (simp add: processItems_closed fulfilledValues_set)
  then obtain i where "i < length (allSettled (scheduleAll settle items))"
    and "allSettled (scheduleAll settle items) ! i = Fulfilled v"
    by (auto simp: in_set_conv_nth)
  then show "\<exists>i. i < length items \<and> settledResult (settle i (items ! i)) = Fulfilled v"
    by (auto simp: length_allSettled_scheduleAll allSettled_nth)
next
  fix i v
  assume i: "i < length items" and r: "settledResult (settle i (items ! i)) = Fulfilled v"
  then have "allSettled (scheduleAll settle items) ! i = Fulfilled v"
    by (simp add: allSettled_nth)
  with i have "Fulfilled v \<in> set (allSettled (scheduleAll settle items))"
    by (metis length_allSettled_scheduleAll nth_mem)
  then show "v \<in> set (successful (processItems settle items))"
    by (simp add: processItems_closed fulfilledValues_set)
next
  fix pe assume "pe \<in> set (failed (processItems settle items))"
  then have "pe \<in> set (rejectedItems (zip items (allSettled (scheduleAll settle items))))"
    by (simp add: processItems_closed)
  from rejectedItems_sound [OF this] obtain i reason where
    i: "i < length items" and r: "allSettled (scheduleAll settle items) ! i = Rejected reason"
    and pe: "pe = \<lparr>item = items ! i,
                  error = (case reason of JsError _ _ _ \<Rightarrow> reason
                           | NonError _ \<Rightarrow> JsError ''Error'' ''Unknown error'' False)\<rparr>"
    by blast
  from i r have "settledResult (settle i (items ! i)) = Rejected reason"
    by (simp add: allSettled_nth)
  with i pe show "\<exists>i reason. i < length items \<and> settledResult (settle i (items ! i)) = Rejected reason
          \<and> pe = \<lparr>item = items ! i,
                  error = (case reason of JsError _ _ _ \<Rightarrow> reason
                           | NonError _ \<Rightarrow> JsError ''Error'' ''Unknown error'' False)\<rparr>"
    by blast
next
  fix i reason
  assume i: "i < length items" and r: "settledResult (settle i (items ! i)) = Rejected reason"
  from i r have "allSettled (scheduleAll settle items) ! i = Rejected reason"
    by (simp add: allSettled_nth)
  from rejectedItems_complete [OF i _ this] i
  show "\<lparr>item = items ! i,
           error = (case reason of JsError _ _ _ \<Rightarrow> reason
                    | NonError _ \<Rightarrow> JsError ''Error'' ''Unknown error'' False)\<rparr>
            \<in> set (failed (processItems settle items))"
    by (simp add: processItems_closed length_allSettled_scheduleAll)
qed

theorem processItems_partition_witness:
  "processItems stringThrowJob [1, 2, 3] =
     \<lparr>successful = [10, 30],
      failed = [\<lparr>item = 2, error = JsError ''Error'' ''Unknown error'' False\<rparr>]\<rparr>
   \<and> length (successful (processItems stringThrowJob [1, 2, 3]))
     + length (failed (processItems stringThrowJob [1, 2, 3])) = length [1, 2, 3 :: int]
   \<and> (1::nat) < length [1, 2, 3 :: int]
   \<and> settledResult (stringThrowJob 1 ([1, 2, 3] ! 1)) = Rejected (NonError False)
   \<and> \<lparr>item = 2, error = JsError ''Error'' ''Unknown error'' False\<rparr>
        \<in> set (failed (processItems stringThrowJob [1, 2, 3]))
   \<and> (0::nat) < length [1, 2, 3 :: int]
   \<and> settledResult (stringThrowJob 0 ([1, 2, 3] ! 0)) = Fulfilled 10
   \<and> 10 \<in> set (successful (processItems stringThrowJob [1, 2, 3]))"
proof -
  have a: "(1::nat) < length [1, 2, 3 :: int]" by simp
  have b: "settledResult (stringThrowJob 1 ([1, 2, 3] ! 1)) = Rejected (NonError False)"
    by (simp add: stringThrowJob_def)
  have c: "settledResult (stringThrowJob 0 ([1, 2, 3] ! 0)) = Fulfilled 10"
    by (simp add: stringThrowJob_def)
  have d: "[0..<length [1, 2, 3 :: int]] = [0, 1, 2]" by (simp add: upt_rec)
  from processItems_partition [of stringThrowJob "[1, 2, 3]"] a b c d show ?thesis
    by (auto simp: stringThrowJob_def fulfilledValues_def rejectedItems_def)
qed

text \<open>
  C4, as stated: the entries of \<open>successful\<close> and of \<open>failed\<close> come in the order in which
  the jobs completed. They do not: when the job of item 3 completes before the job of
  item 1, \<open>successful\<close> still lists the value of item 1 first, while the completion order
  lists the value of item 3 first.
\<close>

theorem completion_order_counterexample:
  "successful (processItems lateFirstJob [1, 2, 3]) = [10, 30]
   \<and> successfulByCompletion lateFirstJob [1, 2, 3] = [30, 10]"
  by (simp add: processItems_def allSettled_def scheduleAll_def reducer_def lateFirstJob_def
      successfulByCompletion_def completionOrder_def)

text \<open>
  C4, amended: the entries of \<open>successful\<close> and of \<open>failed\<close> come in the order of the
  input items; the instants at which the jobs complete have no influence on the result.
  In particular, for the items 1, 2, 3 and a processor \<open>f\<close> that throws \<open>E\<close> for item 2
  only, \<open>successful = [f 1, f 3]\<close> and \<open>failed = [{item: 2, error: E}]\<close>.
\<close>

theorem processItems_order:
  "processItems settle items =
     \<lparr>successful = fulfilledValues (map settledResult (scheduleAll settle items)),
      failed = rejectedItems (zip items (map settledResult (scheduleAll settle items)))\<rparr>
   \<and> ((\<forall>i x. settledResult (settle' i x) = settledResult (settle i x)) \<longrightarrow>
        processItems settle' items = processItems settle items)
   \<and> ((\<forall>i x. settledResult (settle i x) = (if x = 2 then Rejected (JsError n m b) else Fulfilled (f x))) \<longrightarrow>
        processItems settle [1, 2, 3 :: int] =
          \<lparr>successful = [f 1, f 3], failed = [\<lparr>item = 2, error = JsError n m b\<rparr>]\<rparr>)"
proof (intro conjI impI)
  show "processItems settle items =
     \<lparr>successful = fulfilledValues (map settledResult (scheduleAll settle items)),
      failed = rejectedItems (zip items (map settledResult (scheduleAll settle items)))\<rparr>"
    using processItems_closed [of settle items] by (simp add: allSettled_def)
next
  assume "\<forall>i x. settledResult (settle' i x) = settledResult (settle i x)"
  then have "map settledResult (scheduleFrom settle' 0 items)
      = map settledResult (scheduleFrom settle 0 items)"
    by (intro scheduleFrom_results_cong) simp
  then have "allSettled (scheduleAll settle' items) = allSettled (scheduleAll settle items)"
    by (simp add: allSettled_def scheduleAll_def)
  then show "processItems settle' items = processItems settle items"
    by (simp add: processItems_closed)
next
  assume "\<forall>i x. settledResult (settle i x) = (if x = 2 then Rejected (JsError n m b) else Fulfilled (f x))"
  then show "processItems settle [1, 2, 3 :: int] =
          \<lparr>successful = [f 1, f 3], failed = [\<lparr>item = 2, error = JsError n m b\<rparr>]\<rparr>"
    by (simp add: processItems_closed allSettled_def scheduleAll_def fulfilledValues_def rejectedItems_def)
qed

theorem processItems_order_witness:
  "(\<forall>i x. settledResult (inOrderJob i x) = settledResult (lateFirstJob i x))
   \<and> processItems inOrderJob [1, 2, 3] = processItems lateFirstJob [1, 2, 3]
   \<and> (\<forall>i x. settledResult (lateFirstJob i x) =
         (if x = 2 then Rejected (JsError ''Error'' ''no content'' False) else Fulfilled (10 * x)))
   \<and> processItems lateFirstJob [1, 2, 3] =
       \<lparr>successful = [10 * 1, 10 * 3],
        failed = [\<lparr>item = 2, error = JsError ''Error'' ''no content'' False\<rparr>]\<rparr>"
proof -
  have a: "\<forall>i x. settledResult (inOrderJob i x) = settledResult (lateFirstJob i x)"
    by (simp add: inOrderJob_def lateFirstJob_def)
  have b: "\<forall>i x. settledResult (lateFirstJob i x) =
         (if x = 2 then Rejected (JsError ''Error'' ''no content'' False) else Fulfilled (10 * x))"
    by (simp add: lateFirstJob_def)
  from processItems_order [of lateFirstJob "[1, 2, 3]" inOrderJob "''Error''" "''no content''" False "\<lambda>x. 10 * x"] a b
  show ?thesis by blast
qed

text \<open>
  C8: for the empty list of items \<open>schedule\<close> is not called at all, and the result is
  \<open>{successful: [], failed: []}\<close>.
\<close>

theorem processItems_empty:
  "scheduleAll settle [] = [] \<and> processItems settle [] = \<lparr>successful = [], failed = []\<rparr>"
  by (simp add: processItems_def scheduleAll_def allSettled_def)

end
